theory Spec2Isabelle
  imports Complex_Main "HOL-Library.Word"
begin

section \<open>Python and array primitives\<close>

text \<open>
  Exceptions and process exits that the modelled code can produce.
  \<open>SystemExit\<close> is what \<open>quit()\<close> raises; \<open>NameError\<close> carries the unbound name.
\<close>

datatype error =
  ZeroDivisionError | NameError string | SystemExit | RuntimeError | IndexError | ValueError

text \<open>
  Python and numpy slicing \<open>xs[s:e]\<close> with step 1: a negative bound counts from the end,
  and both bounds are clamped to the length.
\<close>

definition slice_index :: "int \<Rightarrow> nat \<Rightarrow> nat" where
  "slice_index k n = (if k < 0 then nat (max (k + int n) 0) else min (nat k) n)"

definition py_slice :: "int \<Rightarrow> int \<Rightarrow> 'a list \<Rightarrow> 'a list" where
  "py_slice s e xs =
     (let a = slice_index s (length xs); b = slice_index e (length xs)
      in take (b - a) (drop a xs))"

text \<open>In-place update of the elements of the slice \<open>xs[s:e]\<close>, the others kept.\<close>

definition slice_update :: "('a \<Rightarrow> 'a) \<Rightarrow> int \<Rightarrow> int \<Rightarrow> 'a list \<Rightarrow> 'a list" where
  "slice_update f s e xs =
     (let a = slice_index s (length xs); b = slice_index e (length xs)
      in take a xs @ map f (take (b - a) (drop a xs)) @ drop (max a b) xs)"

text \<open>In-place update of the slice \<open>xs[s:e]\<close> from a second list of the slice's length.\<close>

definition slice_update2 :: "('a \<Rightarrow> 'b \<Rightarrow> 'a) \<Rightarrow> int \<Rightarrow> int \<Rightarrow> 'a list \<Rightarrow> 'b list \<Rightarrow> 'a list" where
  "slice_update2 f s e xs ys =
     (let a = slice_index s (length xs); b = slice_index e (length xs)
      in take a xs @ map2 f (take (b - a) (drop a xs)) ys @ drop (max a b) xs)"

text \<open>\<open>range(0, n)\<close>: empty when \<open>n \<le> 0\<close>.\<close>

definition range0 :: "int \<Rightarrow> int list" where
  "range0 n = map int [0..<nat n]"

text \<open>
  A dense array of shape H x W (x C) is a list of H rows of W entries (each a list of C
  channel values). \<open>shape\<close> reads the two leading dimensions.
\<close>

type_synonym tensor = "rat list list list"

definition shape :: "'a list list \<Rightarrow> int \<times> int" where
  "shape img = (int (length img), (case img of [] \<Rightarrow> 0 | r # _ \<Rightarrow> int (length r)))"


text \<open>Flip along the width axis (\<open>flip(3)\<close> of an NCHW batch, \<open>flip(2)\<close> of a CHW array).\<close>

definition hflip :: "'a list list \<Rightarrow> 'a list list" where
  "hflip t = map rev t"

section \<open>Padding\<close>

text \<open>\<open>cv2.copyMakeBorder\<close> with \<open>BORDER_CONSTANT\<close>.\<close>

definition copyMakeBorder :: "'a list list \<Rightarrow> int \<Rightarrow> int \<Rightarrow> int \<Rightarrow> int \<Rightarrow> 'a \<Rightarrow> 'a list list" where
  "copyMakeBorder src top_n bottom_n left_n right_n v =
     (let w = nat (snd (shape src) + left_n + right_n)
      in replicate (nat top_n) (replicate w v)
         @ map (\<lambda>r. replicate (nat left_n) v @ r @ replicate (nat right_n) v) src
         @ replicate (nat bottom_n) (replicate w v))"

definition pad_to_crop_sz :: "'a list list \<Rightarrow> int \<Rightarrow> int \<Rightarrow> 'a \<Rightarrow> 'a list list \<times> int \<times> int" where
  "pad_to_crop_sz img crop_h crop_w mean =
     (let (ori_h, ori_w) = shape img;
          pad_h = max (crop_h - ori_h) 0;
          pad_w = max (crop_w - ori_w) 0;
          pad_h_half = pad_h div 2;
          pad_w_half = pad_w div 2
      in (if pad_h > 0 \<or> pad_w > 0
          then copyMakeBorder img pad_h_half (pad_h - pad_h_half)
                 pad_w_half (pad_w - pad_w_half) mean
          else img,
          pad_h_half, pad_w_half))"

section \<open>Tile geometry of \<open>scale_process_cuda\<close>\<close>

text \<open>
  \<open>stride = int(np.ceil(crop * stride_rate))\<close>. The stride rate is a Python float; it is
  modelled as a rational, so the rounding of the float product is not part of the model.
\<close>

definition default_stride_rate :: rat where
  "default_stride_rate = 2 / 3"

definition stride_of :: "int \<Rightarrow> rat \<Rightarrow> int" where
  "stride_of crop stride_rate = \<lceil>of_int crop * stride_rate\<rceil>"

text \<open>
  \<open>grid = int(np.ceil(float(new - crop) / stride) + 1)\<close>; the division of a Python float
  by the Python integer 0 raises.
\<close>

definition grid_of :: "int \<Rightarrow> int \<Rightarrow> int \<Rightarrow> error + int" where
  "grid_of new crop stride =
     (if stride = 0 then Inl ZeroDivisionError
      else Inr (\<lceil>(of_int (new - crop) :: rat) / of_int stride\<rceil> + 1))"

text \<open>
  The bounds of one tile along one axis:
  \<open>s = index * stride; e = min(s + crop, new); s = e - crop\<close>.
\<close>

definition tile_span :: "int \<Rightarrow> int \<Rightarrow> int \<Rightarrow> int \<Rightarrow> int \<times> int" where
  "tile_span index stride crop new =
     (let s0 = index * stride;
          e = min (s0 + crop) new;
          s = e - crop
      in (s, e))"

text \<open>The index pairs of the nested loops, in the order the loops visit them.\<close>

definition tile_indices :: "int \<Rightarrow> int \<Rightarrow> (int \<times> int) list" where
  "tile_indices grid_h grid_w =
     concat (map (\<lambda>index_h. map (\<lambda>index_w. (index_h, index_w)) (range0 grid_w)) (range0 grid_h))"

text \<open>\<open>count_crop[s_h:e_h, s_w:e_w] += 1\<close>\<close>

definition count_add :: "int \<times> int \<Rightarrow> int \<times> int \<Rightarrow> int list list \<Rightarrow> int list list" where
  "count_add hs ws count_crop =
     slice_update (slice_update (\<lambda>c. c + 1) (fst ws) (snd ws)) (fst hs) (snd hs) count_crop"

section \<open>The inference task\<close>

text \<open>
  What the code does to the outside world: the number of forward passes of the classifier
  that have been run, and the lines printed.
\<close>

record world =
  forward_calls :: nat
  stdout :: "string list"

text \<open>
  The fields of \<open>InferenceTask\<close> that the tiling code reads, and its collaborators.
  \<open>model\<close> is the classifier in evaluation mode, a deterministic map applied to each sample
  of a batch on its own. \<open>normalize_img\<close> acts on the channels of one pixel, \<open>softmax\<close> on
  the class scores of one pixel (\<open>dim=1\<close> of an NCHW batch), and the two
  \<open>transform_predictions\<close> maps of the taxonomy converter (a linear map of the class
  scores followed by a softmax) on the class scores of one pixel as well.
\<close>

record task =
  crop_h :: int
  crop_w :: int
  pred_dim :: int
  mean :: "rat list"
  output_taxonomy :: string
  args_universal :: bool
  model :: "tensor \<Rightarrow> tensor"
  normalize_img :: "rat list \<Rightarrow> rat list"
  softmax :: "rat list \<Rightarrow> rat list"
  transform_predictions_test :: "rat list \<Rightarrow> rat list"
  transform_predictions_universal :: "rat list \<Rightarrow> rat list"

definition per_pixel :: "('a \<Rightarrow> 'b) \<Rightarrow> 'a list list \<Rightarrow> 'b list list" where
  "per_pixel f t = map (map f) t"

text \<open>Two dense arrays have the same height and width.\<close>

definition same_size :: "'a list list \<Rightarrow> 'b list list \<Rightarrow> bool" where
  "same_size a b = (map length a = map length b)"

text \<open>\<open>(a + b) / 2\<close>, elementwise on arrays of one shape.\<close>

definition tensor_avg :: "tensor \<Rightarrow> tensor \<Rightarrow> tensor" where
  "tensor_avg a b = map2 (map2 (map2 (\<lambda>x y. (x + y) / 2))) a b"

definition convert_pred_to_label_tax_and_softmax :: "task \<Rightarrow> tensor \<Rightarrow> tensor" where
  "convert_pred_to_label_tax_and_softmax T out =
     (if \<not> args_universal T then per_pixel (transform_predictions_test T) out
      else per_pixel (transform_predictions_universal T) out)"

text \<open>
  \<open>net_process\<close>. The forward pass runs first. When the output's height or width differs
  from the input's, the code calls \<open>F.interpolate\<close>, and \<open>F\<close> is not bound in the module.
\<close>

definition net_process :: "task \<Rightarrow> tensor \<Rightarrow> bool \<Rightarrow> world \<Rightarrow> (error + tensor) \<times> world" where
  "net_process T img flip W =
     (let inp = per_pixel (normalize_img T) img;
          batch = (if flip then [inp, hflip inp] else [inp]);
          output = map (model T) batch;
          W1 = W\<lparr>forward_calls := forward_calls W + 1\<rparr>
      in if \<not> list_all (\<lambda>out. same_size out inp) output then (Inl (NameError ''F''), W1)
         else if output_taxonomy T = ''universal'' then
           (let output = map (per_pixel (softmax T)) output
            in (Inr (if flip then tensor_avg (output ! 0) (hflip (output ! 1)) else output ! 0), W1))
         else if output_taxonomy T = ''test_dataset'' then
           (let output = map (convert_pred_to_label_tax_and_softmax T) output
            in (Inr (if flip then tensor_avg (output ! 0) (hflip (output ! 1)) else output ! 0), W1))
         else (Inl SystemExit,
               W1\<lparr>stdout := stdout W1 @ [''Unrecognized output taxonomy. Quitting....'']\<rparr>))"

section \<open>The tile loop\<close>

record buffers =
  prediction_crop :: tensor
  count_crop :: "int list list"

text \<open>
  \<open>prediction_crop[:, s_h:e_h, s_w:e_w] += out\<close>. The operand must have the region's height
  and width; its class dimension is the region's, or 1 and then broadcast.
\<close>

definition add_scores :: "rat list \<Rightarrow> rat list \<Rightarrow> rat list" where
  "add_scores p v = (if length v = length p then map2 (+) p v else map (\<lambda>x. x + hd v) p)"

definition add_region :: "tensor \<Rightarrow> int \<times> int \<Rightarrow> int \<times> int \<Rightarrow> tensor \<Rightarrow> error + tensor" where
  "add_region pred hs ws out =
     (let region = map (py_slice (fst ws) (snd ws)) (py_slice (fst hs) (snd hs) pred)
      in if list_all2 (list_all2 (\<lambda>v p. length v = length p \<or> length v = 1)) out region
         then Inr (slice_update2 (slice_update2 add_scores (fst ws) (snd ws))
                     (fst hs) (snd hs) pred out)
         else Inl RuntimeError)"

definition tile_step ::
  "task \<Rightarrow> tensor \<Rightarrow> int \<Rightarrow> int \<Rightarrow> int \<Rightarrow> int \<Rightarrow> int \<times> int \<Rightarrow> buffers \<times> world
     \<Rightarrow> (error + buffers) \<times> world" where
  "tile_step T img new_h new_w stride_h stride_w idx BW =
     (let hs = tile_span (fst idx) stride_h (crop_h T) new_h;
          ws = tile_span (snd idx) stride_w (crop_w T) new_w;
          image_crop = map (py_slice (fst ws) (snd ws)) (py_slice (fst hs) (snd hs) img);
          count' = count_add hs ws (count_crop (fst BW))
      in case net_process T image_crop True (snd BW) of
           (Inl err, W') \<Rightarrow> (Inl err, W')
         | (Inr out, W') \<Rightarrow>
             (case add_region (prediction_crop (fst BW)) hs ws out of
                Inl err \<Rightarrow> (Inl err, W')
              | Inr pred' \<Rightarrow> (Inr \<lparr>prediction_crop = pred', count_crop = count'\<rparr>, W')))"

fun tile_loop ::
  "(int \<times> int \<Rightarrow> buffers \<times> world \<Rightarrow> (error + buffers) \<times> world) \<Rightarrow> (int \<times> int) list
     \<Rightarrow> buffers \<times> world \<Rightarrow> (error + buffers) \<times> world" where
  "tile_loop step [] BW = (Inr (fst BW), snd BW)"
| "tile_loop step (idx # rest) BW =
     (case step idx BW of
        (Inl err, W') \<Rightarrow> (Inl err, W')
      | (Inr B', W') \<Rightarrow> tile_loop step rest (B', W'))"

text \<open>
  \<open>scale_process_cuda\<close> up to the end of its tile loop (the buffers the loop leaves).
  \<open>torch.zeros\<close> refuses a negative dimension.
\<close>

definition scale_process_cuda_loop ::
  "task \<Rightarrow> tensor \<Rightarrow> rat \<Rightarrow> world \<Rightarrow> (error + buffers) \<times> world" where
  "scale_process_cuda_loop T img stride_rate W =
     (let (padded, pad_h_half, pad_w_half) = pad_to_crop_sz img (crop_h T) (crop_w T) (mean T);
          (new_h, new_w) = shape padded;
          stride_h = stride_of (crop_h T) stride_rate;
          stride_w = stride_of (crop_w T) stride_rate
      in case grid_of new_h (crop_h T) stride_h of
           Inl err \<Rightarrow> (Inl err, W)
         | Inr grid_h \<Rightarrow>
        (case grid_of new_w (crop_w T) stride_w of
           Inl err \<Rightarrow> (Inl err, W)
         | Inr grid_w \<Rightarrow>
             if pred_dim T < 0 then (Inl RuntimeError, W)
             else
               tile_loop (tile_step T padded new_h new_w stride_h stride_w)
                 (tile_indices grid_h grid_w)
                 (\<lparr>prediction_crop =
                      replicate (nat new_h) (replicate (nat new_w) (replicate (nat (pred_dim T)) 0)),
                   count_crop = replicate (nat new_h) (replicate (nat new_w) 0)\<rparr>, W)))"

text \<open>
  \<open>prediction_crop /= count_crop.unsqueeze(0)\<close>: a float division by a zero count gives
  \<open>inf\<close> or \<open>nan\<close>, here \<open>None\<close>.
\<close>

definition divide_by_count :: "tensor \<Rightarrow> int list list \<Rightarrow> rat option list list list" where
  "divide_by_count pred cnt =
     map2 (map2 (\<lambda>p c. map (\<lambda>x. if c = 0 then None else Some (x / of_int c)) p)) pred cnt"

text \<open>The coverage buffer after the index pairs \<open>idxs\<close> have been visited.\<close>

definition count_tiles ::
  "int \<Rightarrow> int \<Rightarrow> int \<Rightarrow> int \<Rightarrow> int \<Rightarrow> int \<Rightarrow> (int \<times> int) list \<Rightarrow> int list list \<Rightarrow> int list list" where
  "count_tiles ch cw new_h new_w stride_h stride_w idxs cnt =
     fold (\<lambda>idx. count_add (tile_span (fst idx) stride_h ch new_h)
                             (tile_span (snd idx) stride_w cw new_w)) idxs cnt"

section \<open>Multi-scale fusion in \<open>execute_on_img\<close>\<close>

definition tensor_add :: "tensor \<Rightarrow> tensor \<Rightarrow> tensor" where
  "tensor_add a b = map2 (map2 (map2 (+))) a b"

text \<open>
  \<open>torch.argmax\<close> along the class axis: the index of the first maximal value. The scan
  keeps the best index so far and replaces it only by a strictly larger value.
\<close>

fun argmax_from :: "rat list \<Rightarrow> nat \<Rightarrow> nat \<Rightarrow> rat \<Rightarrow> nat" where
  "argmax_from [] i best m = best"
| "argmax_from (x # xs) i best m =
     (if m < x then argmax_from xs (Suc i) i x else argmax_from xs (Suc i) best m)"

definition argmax :: "rat list \<Rightarrow> nat" where
  "argmax xs = (case xs of [] \<Rightarrow> 0 | x # rest \<Rightarrow> argmax_from rest 1 0 x)"

text \<open>
  \<open>execute_on_img\<close> for an image of height \<open>h\<close> and width \<open>w\<close>. \<open>scale_maps\<close> are the
  values \<open>scale_process_cuda\<close> returns for the scales, in the order of \<open>self.scales\<close>; each
  is an \<open>h\<close> x \<open>w\<close> x \<open>pred_dim\<close> array, the result of \<open>cv2.resize\<close> to \<open>(w, h)\<close>.
  \<open>np.zeros\<close> refuses a negative dimension, \<open>torch.argmax\<close> an empty class axis, and
  \<open>np.uint8\<close> keeps the low 8 bits of an index.
\<close>

definition execute_on_img :: "task \<Rightarrow> nat \<Rightarrow> nat \<Rightarrow> tensor list \<Rightarrow> error + 8 word list list" where
  "execute_on_img T h w scale_maps =
     (if pred_dim T < 0 then Inl ValueError
      else
        let prediction = replicate h (replicate w (replicate (nat (pred_dim T)) 0));
            prediction = foldl tensor_add prediction scale_maps;
            prediction = map (map (map (\<lambda>x. x / of_nat (length scale_maps)))) prediction
        in if pred_dim T = 0 then Inl IndexError
           else Inr (map (map (\<lambda>p. of_nat (argmax p))) prediction))"

section \<open>Unique keys from paths\<close>










section \<open>The accuracy calculator\<close>


text \<open>
  The fields of \<open>AccuracyCalculator\<close> that the report code reads. \<open>counts\<close> is the
  confusion matrix held by the segmentation meter, indexed by ground-truth class and then
  by predicted class; \<open>train_datasets\<close> is the taxonomy converter's attribute;
  \<open>excluded_ids\<close> is set to the empty list by the constructor and assigned nowhere else in
  the module.
\<close>

record calculator =
  taxonomy :: string
  dataset :: string
  model_path :: string
  dataset_name :: string
  class_names :: "string list"
  num_eval_classes :: int
  excluded_ids :: "int list"
  train_datasets :: "string list"
  counts :: "int list list"









text \<open>
  \<open>convert_label_to_pred_taxonomy\<close>. The universal branch calls \<open>ToFlatLabel\<close>, a name the
  module neither defines nor imports.
\<close>

definition convert_label_to_pred_taxonomy :: "calculator \<Rightarrow> 'a \<Rightarrow> error + 'a" where
  "convert_label_to_pred_taxonomy C target_img =
     (if taxonomy C = ''universal'' then Inl (NameError ''ToFlatLabel'')
      else Inr target_img)"








text \<open>A dense array of \<open>h\<close> rows of \<open>w\<close> pixels with \<open>c\<close> scores each.\<close>

definition shaped :: "nat \<Rightarrow> nat \<Rightarrow> nat \<Rightarrow> tensor \<Rightarrow> bool" where
  "shaped h w c t =
     (length t = h \<and> list_all (\<lambda>row. length row = w \<and> list_all (\<lambda>p. length p = c) row) t)"

section \<open>Example inputs\<close>

text \<open>
  A stub classifier that returns its input, with pixel normalisation, softmax and taxonomy
  conversion replaced by the identity, on one-channel images and one class.
\<close>

definition stub_task :: "int \<Rightarrow> int \<Rightarrow> string \<Rightarrow> task" where
  "stub_task ch cw tax =
     \<lparr>crop_h = ch, crop_w = cw, pred_dim = 1, mean = [0], output_taxonomy = tax,
      args_universal = False, model = (\<lambda>t. t), normalize_img = (\<lambda>p. p), softmax = (\<lambda>p. p),
      transform_predictions_test = (\<lambda>p. p), transform_predictions_universal = (\<lambda>p. p)\<rparr>"

definition world0 :: world where
  "world0 = \<lparr>forward_calls = 0, stdout = []\<rparr>"

text \<open>
  A calculator for two classes, as the constructor leaves it (no excluded ids), after the
  four pixels of the spec's confusion example have been counted.
\<close>

definition stub_calculator :: "string \<Rightarrow> calculator" where
  "stub_calculator tax =
     \<lparr>taxonomy = tax, dataset = ''ade20k'', model_path = ''m.pth'', dataset_name = ''ade20k'',
      class_names = [''wall'', ''floor''], num_eval_classes = 2, excluded_ids = [],
      train_datasets = [''coco''], counts = [[1, 1], [1, 1]]\<rparr>"

text \<open>
  An inference task as the constructor builds it for two classes and 1 x 2 crops of
  three-channel images. The pixel normalisation subtracts the ImageNet channel means and
  divides by the ImageNet channel deviations (both times 255). The classifier is a stub
  that scores each pixel by the sign of its first normalised channel: class 0 gets 1000
  and class 1 gets 0 where it is positive, and the other way round elsewhere.
\<close>

definition imagenet_normalize :: "rat list \<Rightarrow> rat list" where
  "imagenet_normalize p =
     map2 (\<lambda>x ms. (x - fst ms) / snd ms) p
       [(123675 / 1000, 58395 / 1000), (11628 / 100, 5712 / 100), (10353 / 100, 57375 / 1000)]"

definition brightness_classifier :: "tensor \<Rightarrow> tensor" where
  "brightness_classifier t =
     per_pixel (\<lambda>p. case p of [] \<Rightarrow> [0, 1000] | x # _ \<Rightarrow> if 0 < x then [1000, 0] else [0, 1000]) t"

text \<open>
  \<open>nn.Softmax\<close> over the class scores of one pixel, on the score vectors where its
  floating-point value is exact: when every score is either the largest one or at least
  1000 below it, the exponentials of the lower scores underflow to 0 and the largest
  scores share the mass equally. Score vectors of any other kind do not occur where this
  function is used.
\<close>

definition softmax_saturated :: "rat list \<Rightarrow> rat list" where
  "softmax_saturated v =
     (case v of
        [] \<Rightarrow> []
      | x # rest \<Rightarrow>
          (let m = fold max rest x
           in map (\<lambda>y. if y = m then 1 / of_nat (length (filter (\<lambda>z. z = m) v)) else 0) v))"

definition flip_task :: task where
  "flip_task =
     \<lparr>crop_h = 1, crop_w = 2, pred_dim = 2,
      mean = [123675 / 1000, 11628 / 100, 10353 / 100], output_taxonomy = ''universal'',
      args_universal = False, model = brightness_classifier,
      normalize_img = imagenet_normalize, softmax = softmax_saturated,
      transform_predictions_test = softmax_saturated,
      transform_predictions_universal = softmax_saturated\<rparr>"

section \<open>Tile arithmetic\<close>

lemma range0_iff: "i \<in> set (range0 n) \<longleftrightarrow> 0 \<le> i \<and> i < n"
  by (auto simp: range0_def image_iff intro: bexI[of _ "nat i"])

lemma grid_of_Inr: "grid_of new crop stride = Inr g \<Longrightarrow> stride \<noteq> 0 \<and> g = \<lceil>(of_int (new - crop) :: rat) / of_int stride\<rceil> + 1"
  by (auto simp: grid_of_def split: if_splits)

lemma grid_pos_stride:
  assumes "0 < stride"
  shows "\<lceil>(of_int d :: rat) / of_int stride\<rceil> = (d + stride - 1) div stride"
proof (rule ceiling_unique)
  let ?q = "(d + stride - 1) div stride"
  have m: "(d + stride - 1) = ?q * stride + (d + stride - 1) mod stride" by simp
  have r0: "0 \<le> (d + stride - 1) mod stride" and r1: "(d + stride - 1) mod stride < stride"
    using assms by simp_all
  have a: "?q * stride - stride < d" using m r0 by linarith
  have b: "d \<le> ?q * stride" using m r1 by linarith
  have sp: "(0::rat) < of_int stride" using assms by simp
  have "(of_int ?q - 1) * of_int stride < (of_int d :: rat)"
    using a by (metis (mono_tags, lifting) of_int_1 of_int_diff of_int_less_iff of_int_mult left_diff_distrib mult.left_neutral)
  then show "of_int ?q - 1 < (of_int d :: rat) / of_int stride"
    using sp by (simp add: pos_less_divide_eq)
  have "(of_int d :: rat) \<le> of_int ?q * of_int stride"
    using b by (metis of_int_le_iff of_int_mult)
  then show "(of_int d :: rat) / of_int stride \<le> of_int ?q"
    using sp by (simp add: pos_divide_le_eq)
qed

lemma grid_neg_stride:
  assumes "stride < 0" "0 \<le> d"
  shows "\<lceil>(of_int d :: rat) / of_int stride\<rceil> \<le> 0"
proof -
  have "(of_int d :: rat) / of_int stride \<le> 0"
    using assms by (simp add: divide_nonneg_neg)
  then show ?thesis by simp
qed

lemma grid_of_pos:
  assumes "0 < stride"
  shows "grid_of new crop stride = Inr ((new - crop + stride - 1) div stride + 1)"
  using assms grid_pos_stride[OF assms, of "new - crop"] by (simp add: grid_of_def)

lemma div_up_bounds:
  fixes d stride :: int
  assumes "0 < stride"
  shows "d \<le> ((d + stride - 1) div stride) * stride"
    and "((d + stride - 1) div stride) * stride < d + stride"
proof -
  let ?q = "(d + stride - 1) div stride"
  have m: "(d + stride - 1) = ?q * stride + (d + stride - 1) mod stride" by simp
  have r0: "0 \<le> (d + stride - 1) mod stride" and r1: "(d + stride - 1) mod stride < stride"
    using assms by simp_all
  show "d \<le> ?q * stride" using m r1 by linarith
  show "?q * stride < d + stride" using m r0 by linarith
qed

lemma tile_span_size: "snd (tile_span i stride crop new) - fst (tile_span i stride crop new) = crop"
  by (simp add: tile_span_def Let_def)

lemma tile_span_in_bounds:
  assumes c: "0 \<le> crop" "crop \<le> new"
    and g: "grid_of new crop stride = Inr g"
    and i: "i \<in> set (range0 g)"
  shows "0 \<le> fst (tile_span i stride crop new)
       \<and> fst (tile_span i stride crop new) \<le> snd (tile_span i stride crop new)
       \<and> snd (tile_span i stride crop new) \<le> new"
proof -
  have i0: "0 \<le> i" and ig: "i < g" using i by (simp_all add: range0_iff)
  have s0: "stride \<noteq> 0" and gd: "g = \<lceil>(of_int (new - crop) :: rat) / of_int stride\<rceil> + 1"
    using grid_of_Inr[OF g] by simp_all
  have "0 \<le> i * stride"
  proof (cases "0 < stride")
    case True
    then show ?thesis using i0 by simp
  next
    case False
    then have "stride < 0" using s0 by simp
    then have "g \<le> 1" using grid_neg_stride[of stride "new - crop"] c gd by simp
    then have "i = 0" using i0 ig by simp
    then show ?thesis by simp
  qed
  then show ?thesis using c by (auto simp: tile_span_def Let_def min_def)
qed


lemma tile_span_covers:
  assumes s: "0 < stride" "stride \<le> crop" and c: "crop \<le> new"
    and g: "grid_of new crop stride = Inr g"
    and p: "0 \<le> p" "p < new"
  shows "\<exists>i \<in> set (range0 g). fst (tile_span i stride crop new) \<le> p \<and> p < snd (tile_span i stride crop new)"
proof -
  let ?q = "(new - crop + stride - 1) div stride"
  have gq: "g = ?q + 1" using g grid_of_pos[OF s(1), of new crop] by simp
  have q0: "0 \<le> ?q" using s c by (simp add: pos_imp_zdiv_nonneg_iff)
  have qd: "new - crop \<le> ?q * stride" using div_up_bounds(1)[OF s(1), of "new - crop"] .
  let ?k = "p div stride"
  have k0: "0 \<le> ?k" using p s by (simp add: pos_imp_zdiv_nonneg_iff)
  have km: "p = ?k * stride + p mod stride" by simp
  have kr: "0 \<le> p mod stride" "p mod stride < stride" using s by simp_all
  show ?thesis
  proof (cases "?k \<le> ?q")
    case True
    have lo: "?k * stride \<le> p" using km kr by linarith
    have hi: "p < ?k * stride + crop" using km kr s by linarith
    have "?k \<in> set (range0 g)" using True k0 gq by (simp add: range0_iff)
    moreover have "fst (tile_span ?k stride crop new) \<le> p \<and> p < snd (tile_span ?k stride crop new)"
      using lo hi p by (simp add: tile_span_def Let_def)
    ultimately show ?thesis by blast
  next
    case False
    then have "?q \<le> ?k" by simp
    then have "?q * stride \<le> ?k * stride" using s by (simp only: mult_right_mono less_imp_le)
    moreover have "?k * stride \<le> p" using km kr by linarith
    ultimately have lo: "new - crop \<le> p" using qd by linarith
    have "?q \<in> set (range0 g)" using q0 gq by (simp add: range0_iff)
    moreover have "fst (tile_span ?q stride crop new) \<le> p \<and> p < snd (tile_span ?q stride crop new)"
      using lo qd p by (simp add: tile_span_def Let_def)
    ultimately show ?thesis by blast
  qed
qed

lemma slice_index_le: "slice_index k n \<le> n"
  by (auto simp: slice_index_def)

lemma nth_slice_gen:
  assumes "a \<le> length xs" "b \<le> length xs" "i < length xs"
  shows "(take a xs @ map f (take (b - a) (drop a xs)) @ drop (max a b) xs) ! i =
     (if a \<le> i \<and> i < b then f (xs ! i) else xs ! i)"
proof (cases "a \<le> b")
  case True
  then have m: "max a b = b" by simp
  show ?thesis using assms True unfolding m
    by (auto simp: nth_append min_def)
next
  case False
  then have m: "max a b = a" "b - a = 0" by simp_all
  show ?thesis using assms False unfolding m
    by (auto simp: nth_append min_def)
qed

lemma slice_index_in_range: "0 \<le> k \<Longrightarrow> k \<le> int n \<Longrightarrow> slice_index k n = nat k"
  by (simp add: slice_index_def)

lemma length_slice_update [simp]: "length (slice_update f s e xs) = length xs"
  using slice_index_le[of s "length xs"] slice_index_le[of e "length xs"]
  by (simp add: slice_update_def Let_def)

lemma nth_slice_update:
  assumes "i < length xs"
  shows "slice_update f s e xs ! i =
     (if slice_index s (length xs) \<le> i \<and> i < slice_index e (length xs) then f (xs ! i) else xs ! i)"
  unfolding slice_update_def Let_def
  by (rule nth_slice_gen[OF slice_index_le slice_index_le assms])

lemma length_count_add [simp]: "length (count_add hs ws cnt) = length cnt"
  by (simp add: count_add_def)

lemma nth_count_add:
  assumes "r < length cnt"
  shows "count_add hs ws cnt ! r =
     (if slice_index (fst hs) (length cnt) \<le> r \<and> r < slice_index (snd hs) (length cnt)
      then slice_update (\<lambda>c. c + 1) (fst ws) (snd ws) (cnt ! r) else cnt ! r)"
  using assms by (simp add: count_add_def nth_slice_update)

lemma length_nth_count_add:
  "r < length cnt \<Longrightarrow> length (count_add hs ws cnt ! r) = length (cnt ! r)"
  by (simp add: nth_count_add)

lemma count_add_mono:
  assumes "r < length cnt" "c < length (cnt ! r)"
  shows "cnt ! r ! c \<le> count_add hs ws cnt ! r ! c"
  using assms by (simp add: nth_count_add nth_slice_update)

lemma count_add_hit:
  assumes "r < length cnt" "c < length (cnt ! r)"
    and "slice_index (fst hs) (length cnt) \<le> r" "r < slice_index (snd hs) (length cnt)"
    and "slice_index (fst ws) (length (cnt ! r)) \<le> c" "c < slice_index (snd ws) (length (cnt ! r))"
  shows "count_add hs ws cnt ! r ! c = cnt ! r ! c + 1"
  using assms by (simp add: nth_count_add nth_slice_update)

lemma count_tiles_Nil [simp]: "count_tiles ch cw nh nw sh sw [] cnt = cnt"
  by (simp add: count_tiles_def)

lemma count_tiles_Cons [simp]:
  "count_tiles ch cw nh nw sh sw (idx # rest) cnt =
     count_tiles ch cw nh nw sh sw rest
       (count_add (tile_span (fst idx) sh ch nh) (tile_span (snd idx) sw cw nw) cnt)"
  by (simp add: count_tiles_def)

lemma tile_step_count:
  assumes "tile_step T img nh nw sh sw idx BW = (Inr B', W')"
  shows "count_crop B' =
     count_add (tile_span (fst idx) sh (crop_h T) nh) (tile_span (snd idx) sw (crop_w T) nw)
       (count_crop (fst BW))"
  using assms
  by (auto simp: tile_step_def Let_def split: prod.splits sum.splits)

lemma tile_loop_count:
  assumes "tile_loop (tile_step T img nh nw sh sw) idxs BW = (Inr B', W')"
  shows "count_crop B' = count_tiles (crop_h T) (crop_w T) nh nw sh sw idxs (count_crop (fst BW))"
  using assms
proof (induction idxs arbitrary: BW)
  case Nil
  then show ?case by auto
next
  case (Cons idx rest)
  from Cons.prems obtain B1 W1 where
    st: "tile_step T img nh nw sh sw idx BW = (Inr B1, W1)"
    and lp: "tile_loop (tile_step T img nh nw sh sw) rest (B1, W1) = (Inr B', W')"
    by (auto split: prod.splits sum.splits)
  show ?case
    using Cons.IH[OF lp] tile_step_count[OF st] by simp
qed

lemma count_tiles_length [simp]:
  "length (count_tiles ch cw nh nw sh sw idxs cnt) = length cnt"
  by (induction idxs arbitrary: cnt) simp_all

lemma count_tiles_row_length:
  "r < length cnt \<Longrightarrow> length (count_tiles ch cw nh nw sh sw idxs cnt ! r) = length (cnt ! r)"
  by (induction idxs arbitrary: cnt) (simp_all add: length_nth_count_add)

lemma count_tiles_mono:
  "r < length cnt \<Longrightarrow> c < length (cnt ! r) \<Longrightarrow>
     cnt ! r ! c \<le> count_tiles ch cw nh nw sh sw idxs cnt ! r ! c"
proof (induction idxs arbitrary: cnt)
  case Nil
  then show ?case by simp
next
  case (Cons idx rest)
  let ?c1 = "count_add (tile_span (fst idx) sh ch nh) (tile_span (snd idx) sw cw nw) cnt"
  have "cnt ! r ! c \<le> ?c1 ! r ! c" using Cons.prems by (rule count_add_mono)
  also have "\<dots> \<le> count_tiles ch cw nh nw sh sw rest ?c1 ! r ! c"
    using Cons.prems by (intro Cons.IH) (simp_all add: length_nth_count_add)
  finally show ?case by simp
qed

lemma count_tiles_hit:
  assumes "idx \<in> set idxs" "r < length cnt" "c < length (cnt ! r)"
    and "slice_index (fst (tile_span (fst idx) sh ch nh)) (length cnt) \<le> r"
        "r < slice_index (snd (tile_span (fst idx) sh ch nh)) (length cnt)"
    and "slice_index (fst (tile_span (snd idx) sw cw nw)) (length (cnt ! r)) \<le> c"
        "c < slice_index (snd (tile_span (snd idx) sw cw nw)) (length (cnt ! r))"
  shows "cnt ! r ! c + 1 \<le> count_tiles ch cw nh nw sh sw idxs cnt ! r ! c"
  using assms
proof (induction idxs arbitrary: cnt)
  case Nil
  then show ?case by simp
next
  case (Cons j rest)
  let ?c1 = "count_add (tile_span (fst j) sh ch nh) (tile_span (snd j) sw cw nw) cnt"
  have len1: "r < length ?c1" "c < length (?c1 ! r)" "length ?c1 = length cnt"
      "length (?c1 ! r) = length (cnt ! r)"
    using Cons.prems by (simp_all add: length_nth_count_add)
  show ?case
  proof (cases "j = idx")
    case True
    have "?c1 ! r ! c = cnt ! r ! c + 1"
      using Cons.prems unfolding True by (intro count_add_hit) simp_all
    moreover have "?c1 ! r ! c \<le> count_tiles ch cw nh nw sh sw rest ?c1 ! r ! c"
      using len1 by (intro count_tiles_mono)
    ultimately show ?thesis by simp
  next
    case False
    then have "idx \<in> set rest" using Cons.prems by simp
    then have "?c1 ! r ! c + 1 \<le> count_tiles ch cw nh nw sh sw rest ?c1 ! r ! c"
      using Cons.prems len1 by (intro Cons.IH) simp_all
    moreover have "cnt ! r ! c \<le> ?c1 ! r ! c" using Cons.prems by (intro count_add_mono)
    ultimately show ?thesis by simp
  qed
qed

lemma tile_indices_iff:
  "(i, j) \<in> set (tile_indices gh gw) \<longleftrightarrow> i \<in> set (range0 gh) \<and> j \<in> set (range0 gw)"
  by (auto simp: tile_indices_def)

lemma shape_replicate_append:
  "shape (replicate a x @ ys) =
     (int a + int (length ys), if 0 < a then int (length x) else snd (shape ys))"
  by (cases a) (simp_all add: shape_def)

lemma shape_Cons: "shape (r # rest) = (1 + int (length rest), int (length r))"
  by (simp add: shape_def)

lemma shape_replicate:
  "shape (replicate a x) = (int a, if 0 < a then int (length x) else 0)"
  using shape_replicate_append[of a x "[]"] by (simp add: shape_def)

lemma shape_copyMakeBorder:
  assumes "0 \<le> t" "0 \<le> b" "0 \<le> l" "0 \<le> r" "0 < t + b + fst (shape src)"
  shows "shape (copyMakeBorder src t b l r v) = (fst (shape src) + t + b, snd (shape src) + l + r)"
proof (cases src)
  case Nil
  have "copyMakeBorder src t b l r v = replicate (nat t + nat b) (replicate (nat (l + r)) v)"
    using Nil by (simp add: copyMakeBorder_def Let_def shape_def replicate_add)
  moreover have "0 < nat t + nat b" using assms Nil by (simp add: shape_def) arith
  moreover have "shape src = (0, 0)" using Nil by (simp add: shape_def)
  ultimately show ?thesis using assms
    by (simp add: shape_replicate)
next
  case (Cons row rest)
  then show ?thesis using assms
    by (simp add: copyMakeBorder_def Let_def shape_replicate_append shape_Cons nat_add_distrib)
qed

lemma shape_nonneg: "0 \<le> fst (shape img)" "0 \<le> snd (shape img)"
  by (simp_all add: shape_def split: list.splits)

lemma shape_pad_to_crop_sz:
  assumes "0 < ch" "0 < cw"
  shows "shape (fst (pad_to_crop_sz img ch cw m)) = (max (fst (shape img)) ch, max (snd (shape img)) cw)"
proof -
  obtain oh ow where sh: "shape img = (oh, ow)" by (cases "shape img")
  have nn: "0 \<le> oh" "0 \<le> ow" using shape_nonneg[of img] sh by simp_all
  let ?ph = "max (ch - oh) 0" and ?pw = "max (cw - ow) 0"
  show ?thesis
  proof (cases "0 < ?ph \<or> 0 < ?pw")
    case True
    have pos: "0 < ?ph div 2 + (?ph - ?ph div 2) + fst (shape img)"
      using assms nn sh by (auto simp: max_def)
    have "shape (copyMakeBorder img (?ph div 2) (?ph - ?ph div 2) (?pw div 2) (?pw - ?pw div 2) m)
        = (fst (shape img) + ?ph div 2 + (?ph - ?ph div 2), snd (shape img) + ?pw div 2 + (?pw - ?pw div 2))"
    proof (rule shape_copyMakeBorder[OF _ _ _ _ pos])
      show "0 \<le> ?ph div 2" "0 \<le> ?pw div 2" by simp_all
      have "?ph div 2 \<le> ?ph" "?pw div 2 \<le> ?pw" by arith+
      then show "0 \<le> ?ph - ?ph div 2" "0 \<le> ?pw - ?pw div 2" by simp_all
    qed
    then show ?thesis using True sh
      by (auto simp: pad_to_crop_sz_def Let_def max_def)
  next
    case False
    then have "ch \<le> oh" "cw \<le> ow" by (auto simp: max_def split: if_splits)
    then show ?thesis using sh by (simp add: pad_to_crop_sz_def Let_def max_def)
  qed
qed

lemma stride_of_bounds:
  assumes "0 < crop" "0 < rate" "rate \<le> 1"
  shows "0 < stride_of crop rate" "stride_of crop rate \<le> crop"
proof -
  have cp: "(0::rat) < of_int crop" using assms by simp
  have "0 < of_int crop * rate" using cp assms by simp
  then show "0 < stride_of crop rate" by (simp add: stride_of_def less_ceiling_iff)
  have "of_int crop * rate \<le> of_int crop * 1" using cp assms by (intro mult_left_mono) simp_all
  then show "stride_of crop rate \<le> crop" by (simp add: stride_of_def ceiling_le_iff)
qed

lemma count_tiles_cover:
  assumes sh: "0 < sh" "sh \<le> ch" "ch \<le> nh" and sw: "0 < sw" "sw \<le> cw" "cw \<le> nw"
    and gh: "grid_of nh ch sh = Inr gh" and gw: "grid_of nw cw sw = Inr gw"
    and r: "r < nat nh" and c: "c < nat nw"
  shows "1 \<le> count_tiles ch cw nh nw sh sw (tile_indices gh gw)
                (replicate (nat nh) (replicate (nat nw) 0)) ! r ! c"
proof -
  let ?cnt = "replicate (nat nh) (replicate (nat nw) (0::int))"
  have rp: "0 \<le> int r" "int r < nh" and cp: "0 \<le> int c" "int c < nw" using r c by simp_all
  obtain i where i: "i \<in> set (range0 gh)"
    and ci: "fst (tile_span i sh ch nh) \<le> int r" "int r < snd (tile_span i sh ch nh)"
    using tile_span_covers[OF sh gh rp] by blast
  obtain j where j: "j \<in> set (range0 gw)"
    and cj: "fst (tile_span j sw cw nw) \<le> int c" "int c < snd (tile_span j sw cw nw)"
    using tile_span_covers[OF sw gw cp] by blast
  have bi: "0 \<le> fst (tile_span i sh ch nh)" "snd (tile_span i sh ch nh) \<le> nh"
    using tile_span_in_bounds[OF _ sh(3) gh i] sh by simp_all
  have bj: "0 \<le> fst (tile_span j sw cw nw)" "snd (tile_span j sw cw nw) \<le> nw"
    using tile_span_in_bounds[OF _ sw(3) gw j] sw by simp_all
  have len: "length ?cnt = nat nh" "length (?cnt ! r) = nat nw" using r by simp_all
  have mem: "(i, j) \<in> set (tile_indices gh gw)" using i j by (simp add: tile_indices_iff)
  have "?cnt ! r ! c + 1 \<le> count_tiles ch cw nh nw sh sw (tile_indices gh gw) ?cnt ! r ! c"
  proof (rule count_tiles_hit[OF mem])
    show "r < length ?cnt" using r by simp
    show "c < length (?cnt ! r)" using r c by simp
    show "slice_index (fst (tile_span (fst (i, j)) sh ch nh)) (length ?cnt) \<le> r"
      using bi ci rp by (simp add: slice_index_def)
    show "r < slice_index (snd (tile_span (fst (i, j)) sh ch nh)) (length ?cnt)"
      using bi ci rp by (simp add: slice_index_def)
    show "slice_index (fst (tile_span (snd (i, j)) sw cw nw)) (length (?cnt ! r)) \<le> c"
      using bj cj cp r by (simp add: slice_index_def)
    show "c < slice_index (snd (tile_span (snd (i, j)) sw cw nw)) (length (?cnt ! r))"
      using bj cj cp r by (simp add: slice_index_def)
  qed
  then show ?thesis using r c by simp
qed

lemma divide_by_count_defined:
  assumes "list_all (list_all (\<lambda>c. c \<noteq> 0)) cnt"
  shows "list_all (list_all (list_all (\<lambda>x. x \<noteq> None))) (divide_by_count pred cnt)"
  using assms
  by (auto simp: divide_by_count_def list_all_iff dest!: set_zip_rightD)

lemma scale_process_cuda_loop_count:
  assumes run: "scale_process_cuda_loop T img rate W = (Inr B, W')"
  shows "\<exists>gh gw. grid_of (fst (shape (fst (pad_to_crop_sz img (crop_h T) (crop_w T) (mean T)))))
                     (crop_h T) (stride_of (crop_h T) rate) = Inr gh
       \<and> grid_of (snd (shape (fst (pad_to_crop_sz img (crop_h T) (crop_w T) (mean T)))))
                     (crop_w T) (stride_of (crop_w T) rate) = Inr gw
       \<and> count_crop B =
           count_tiles (crop_h T) (crop_w T)
             (fst (shape (fst (pad_to_crop_sz img (crop_h T) (crop_w T) (mean T)))))
             (snd (shape (fst (pad_to_crop_sz img (crop_h T) (crop_w T) (mean T)))))
             (stride_of (crop_h T) rate) (stride_of (crop_w T) rate) (tile_indices gh gw)
             (replicate (nat (fst (shape (fst (pad_to_crop_sz img (crop_h T) (crop_w T) (mean T))))))
                (replicate (nat (snd (shape (fst (pad_to_crop_sz img (crop_h T) (crop_w T) (mean T)))))) 0))"
proof -
  obtain padded ph pw where pd: "pad_to_crop_sz img (crop_h T) (crop_w T) (mean T) = (padded, ph, pw)"
    by (cases "pad_to_crop_sz img (crop_h T) (crop_w T) (mean T)")
  obtain nh nw where sp: "shape padded = (nh, nw)" by (cases "shape padded")
  from run pd sp obtain gh gw where
    gh: "grid_of nh (crop_h T) (stride_of (crop_h T) rate) = Inr gh"
    and gw: "grid_of nw (crop_w T) (stride_of (crop_w T) rate) = Inr gw"
    and lp: "tile_loop (tile_step T padded nh nw (stride_of (crop_h T) rate) (stride_of (crop_w T) rate))
               (tile_indices gh gw)
               (\<lparr>prediction_crop = replicate (nat nh) (replicate (nat nw) (replicate (nat (pred_dim T)) 0)),
                 count_crop = replicate (nat nh) (replicate (nat nw) 0)\<rparr>, W) = (Inr B, W')"
    by (auto simp: scale_process_cuda_loop_def Let_def split: sum.splits if_splits)
  show ?thesis
    using tile_loop_count[OF lp] gh gw pd sp by simp
qed

section \<open>Coverage of the padded image\<close>

text \<open>
  Claim C1, amended. For a crop size of at least 1 x 1 and a stride rate in (0, 1], when the
  tile loop of \<open>scale_process_cuda\<close> completes, the coverage buffer has the shape of the
  padded image and every entry is at least 1, so no element of the score sum is divided
  by zero.
\<close>

theorem coverage_for_stride_within_crop:
  assumes "0 < crop_h T" "0 < crop_w T" "0 < stride_rate" "stride_rate \<le> 1"
    and "scale_process_cuda_loop T img stride_rate W = (Inr B, W')"
    and "shape (fst (pad_to_crop_sz img (crop_h T) (crop_w T) (mean T))) = (new_h, new_w)"
  shows "length (count_crop B) = nat new_h
       \<and> list_all (\<lambda>row. length row = nat new_w \<and> list_all (\<lambda>c. 1 \<le> c) row) (count_crop B)
       \<and> list_all (list_all (list_all (\<lambda>x. x \<noteq> None)))
            (divide_by_count (prediction_crop B) (count_crop B))"
proof -
  let ?sh = "stride_of (crop_h T) stride_rate" and ?sw = "stride_of (crop_w T) stride_rate"
  from scale_process_cuda_loop_count[OF assms(5)] assms(6) obtain gh gw where
    gh: "grid_of new_h (crop_h T) ?sh = Inr gh" and gw: "grid_of new_w (crop_w T) ?sw = Inr gw"
    and cnt: "count_crop B = count_tiles (crop_h T) (crop_w T) new_h new_w ?sh ?sw
                (tile_indices gh gw) (replicate (nat new_h) (replicate (nat new_w) 0))"
    by auto
  have nh: "crop_h T \<le> new_h" and nw: "crop_w T \<le> new_w"
    using shape_pad_to_crop_sz[OF assms(1,2), of img "mean T"] assms(6) by simp_all
  have len: "length (count_crop B) = nat new_h" by (simp add: cnt)
  have rows: "length (count_crop B ! r) = nat new_w" if "r < nat new_h" for r
    using that by (simp add: cnt count_tiles_row_length)
  have ge: "1 \<le> count_crop B ! r ! c" if "r < nat new_h" "c < nat new_w" for r c
    unfolding cnt
    by (rule count_tiles_cover[OF stride_of_bounds[OF assms(1,3,4)] nh
          stride_of_bounds[OF assms(2,3,4)] nw gh gw that])
  have all: "list_all (\<lambda>row. length row = nat new_w \<and> list_all (\<lambda>c. 1 \<le> c) row) (count_crop B)"
    using len rows ge by (simp add: list_all_length)
  then have "list_all (list_all (\<lambda>c. c \<noteq> 0)) (count_crop B)"
    by (fastforce simp: list_all_iff)
  then show ?thesis using len all divide_by_count_defined by blast
qed

theorem coverage_for_stride_within_crop_witness:
  "scale_process_cuda_loop (stub_task 2 2 ''universal'') [[[1], [2], [3]]] default_stride_rate world0
     = (Inr \<lparr>prediction_crop = [[[1], [4], [3]], [[0], [0], [0]]], count_crop = [[1, 2, 1], [1, 2, 1]]\<rparr>,
        \<lparr>forward_calls = 2, stdout = []\<rparr>)
   \<and> list_all (\<lambda>row. length row = nat 3 \<and> list_all (\<lambda>c. 1 \<le> c) row) [[1, 2, 1], [1, 2, 1 :: int]]
   \<and> list_all (list_all (list_all (\<lambda>x. x \<noteq> None)))
        (divide_by_count [[[1], [4], [3]], [[0], [0], [0]]] [[1, 2, 1], [1, 2, 1]])"
proof -
  let ?T = "stub_task 2 2 ''universal''"
  let ?B = "\<lparr>prediction_crop = [[[1], [4], [3]], [[0], [0], [0]]], count_crop = [[1, 2, 1], [1, 2, 1]]\<rparr>"
  have run: "scale_process_cuda_loop ?T [[[1], [2], [3]]] default_stride_rate world0
     = (Inr ?B, \<lparr>forward_calls = 2, stdout = []\<rparr>)"
    by code_simp
  have sh: "shape (fst (pad_to_crop_sz [[[1], [2], [3]]] (crop_h ?T) (crop_w ?T) (mean ?T))) = (2, 3)"
    by code_simp
  have h: "0 < crop_h ?T" "0 < crop_w ?T" "0 < default_stride_rate" "default_stride_rate \<le> 1"
    by (simp_all add: stub_task_def default_stride_rate_def)
  show ?thesis
    using coverage_for_stride_within_crop[OF h run sh] run by simp
qed

text \<open>
  Claim C1 as stated, for every stride rate, fails: with a 1 x 1 crop and stride rate 2 on a
  3 x 1 image the stride is 2, the two tiles are rows 0 and 2, and row 1 keeps count 0,
  so the division there is by zero.
\<close>

theorem coverage_fails_for_stride_rate_two:
  "scale_process_cuda_loop (stub_task 1 1 ''universal'') [[[1]], [[2]], [[3]]] 2 world0
     = (Inr \<lparr>prediction_crop = [[[1]], [[0]], [[3]]], count_crop = [[1], [0], [1]]\<rparr>,
        \<lparr>forward_calls = 2, stdout = []\<rparr>)
   \<and> divide_by_count [[[1]], [[0]], [[3]]] [[1], [0], [1]] = [[[Some 1]], [[None]], [[Some 3]]]"
  by code_simp

section \<open>Tile bounds\<close>

lemma tile_span_slice_index:
  assumes c: "0 \<le> crop" "crop \<le> new"
    and g: "grid_of new crop stride = Inr g"
    and i: "i \<in> set (range0 g)"
    and sp: "tile_span i stride crop new = (s, e)"
  shows "0 \<le> s \<and> s \<le> e \<and> e \<le> new \<and> e - s = crop
       \<and> slice_index s (nat new) = nat s \<and> slice_index e (nat new) = nat e"
proof -
  have b: "0 \<le> s" "s \<le> e" "e \<le> new"
    using tile_span_in_bounds[OF c g i] sp by simp_all
  have sz: "e - s = crop" using tile_span_size[of i stride crop new] sp by simp
  have "slice_index s (nat new) = nat s" "slice_index e (nat new) = nat e"
    using b by (simp_all add: slice_index_in_range)
  then show ?thesis using b sz by simp
qed

text \<open>
  Claim C9. For a crop size of at least 1 x 1, the image that \<open>pad_to_crop_sz\<close> returns
  is at least as large as the crop, and for every tile index of the grid, at every stride
  rate, the slice bounds satisfy \<open>0 \<le> s \<le> e \<le> new\<close> on both axes; the slices of the
  padded image and of the two buffers are then taken at these bounds as they are, with
  no wrap-around and no clamping.
\<close>

theorem tile_bounds_within_padded_image:
  assumes "0 < crop_h T" "0 < crop_w T"
    and "shape (fst (pad_to_crop_sz img (crop_h T) (crop_w T) (mean T))) = (new_h, new_w)"
    and "grid_of new_h (crop_h T) (stride_of (crop_h T) stride_rate) = Inr grid_h"
    and "grid_of new_w (crop_w T) (stride_of (crop_w T) stride_rate) = Inr grid_w"
    and "(index_h, index_w) \<in> set (tile_indices grid_h grid_w)"
    and "tile_span index_h (stride_of (crop_h T) stride_rate) (crop_h T) new_h = (s_h, e_h)"
    and "tile_span index_w (stride_of (crop_w T) stride_rate) (crop_w T) new_w = (s_w, e_w)"
  shows "crop_h T \<le> new_h \<and> crop_w T \<le> new_w
       \<and> 0 \<le> s_h \<and> s_h \<le> e_h \<and> e_h \<le> new_h
       \<and> 0 \<le> s_w \<and> s_w \<le> e_w \<and> e_w \<le> new_w
       \<and> slice_index s_h (nat new_h) = nat s_h \<and> slice_index e_h (nat new_h) = nat e_h
       \<and> slice_index s_w (nat new_w) = nat s_w \<and> slice_index e_w (nat new_w) = nat e_w"
proof -
  have nh: "crop_h T \<le> new_h" and nw: "crop_w T \<le> new_w"
    using shape_pad_to_crop_sz[OF assms(1,2), of img "mean T"] assms(3) by simp_all
  have ih: "index_h \<in> set (range0 grid_h)" and iw: "index_w \<in> set (range0 grid_w)"
    using assms(6) by (simp_all add: tile_indices_iff)
  have ch: "0 \<le> crop_h T" and cw: "0 \<le> crop_w T" using assms(1,2) by simp_all
  show ?thesis
    using tile_span_slice_index[OF ch nh assms(4) ih assms(7)]
      tile_span_slice_index[OF cw nw assms(5) iw assms(8)] nh nw
    by simp
qed

theorem tile_bounds_within_padded_image_witness:
  "shape (fst (pad_to_crop_sz [[[1], [2], [3]]] 2 2 [0 :: rat])) = (2, 3)
   \<and> grid_of 2 2 (stride_of 2 default_stride_rate) = Inr 1
   \<and> grid_of 3 2 (stride_of 2 default_stride_rate) = Inr 2
   \<and> (0, 1) \<in> set (tile_indices 1 2)
   \<and> tile_span 0 (stride_of 2 default_stride_rate) 2 2 = (0, 2)
   \<and> tile_span 1 (stride_of 2 default_stride_rate) 2 3 = (1, 3)
   \<and> slice_index 1 (nat 3) = nat 1 \<and> slice_index 3 (nat 3) = nat 3"
proof -
  let ?T = "stub_task 2 2 ''universal''"
  have c: "0 < crop_h ?T" "0 < crop_w ?T" by (simp_all add: stub_task_def)
  have sh: "shape (fst (pad_to_crop_sz [[[1], [2], [3]]] (crop_h ?T) (crop_w ?T) (mean ?T))) = (2, 3)"
    by code_simp
  have gh: "grid_of 2 (crop_h ?T) (stride_of (crop_h ?T) default_stride_rate) = Inr 1" by code_simp
  have gw: "grid_of 3 (crop_w ?T) (stride_of (crop_w ?T) default_stride_rate) = Inr 2" by code_simp
  have ix: "(0, 1) \<in> set (tile_indices 1 2)" by code_simp
  have th: "tile_span 0 (stride_of (crop_h ?T) default_stride_rate) (crop_h ?T) 2 = (0, 2)" by code_simp
  have tw: "tile_span 1 (stride_of (crop_w ?T) default_stride_rate) (crop_w ?T) 3 = (1, 3)" by code_simp
  show ?thesis
    using tile_bounds_within_padded_image[OF c sh gh gw ix th tw] sh gh gw ix th tw
    by (simp add: stub_task_def)
qed

section \<open>Crop size\<close>







section \<open>Stride and grid\<close>

lemma net_process_forward_calls:
  "forward_calls (snd (net_process T img flip W)) = forward_calls W + 1"
  by (simp add: net_process_def Let_def)

lemma tile_step_forward_calls:
  assumes "tile_step T img nh nw sh sw idx BW = (r, W')"
  shows "forward_calls W' = forward_calls (snd BW) + 1"
proof -
  let ?hs = "tile_span (fst idx) sh (crop_h T) nh" and ?ws = "tile_span (snd idx) sw (crop_w T) nw"
  let ?np = "net_process T (map (py_slice (fst ?ws) (snd ?ws)) (py_slice (fst ?hs) (snd ?hs) img)) True (snd BW)"
  have "W' = snd ?np"
    using assms by (auto simp: tile_step_def Let_def split: prod.splits sum.splits)
  then show ?thesis by (simp only: net_process_forward_calls)
qed

lemma tile_loop_forward_calls:
  assumes "tile_loop (tile_step T img nh nw sh sw) idxs BW = (Inr B', W')"
  shows "forward_calls W' = forward_calls (snd BW) + length idxs"
  using assms
proof (induction idxs arbitrary: BW)
  case Nil
  then show ?case by auto
next
  case (Cons idx rest)
  from Cons.prems obtain B1 W1 where
    st: "tile_step T img nh nw sh sw idx BW = (Inr B1, W1)"
    and lp: "tile_loop (tile_step T img nh nw sh sw) rest (B1, W1) = (Inr B', W')"
    by (auto split: prod.splits sum.splits)
  show ?case
    using Cons.IH[OF lp] tile_step_forward_calls[OF st] by simp
qed

lemma length_tile_indices: "length (tile_indices gh gw) = nat gh * nat gw"
  by (simp add: tile_indices_def range0_def length_concat comp_def sum_list_triv)

text \<open>
  Claim C3. When the tile loop of \<open>scale_process_cuda\<close> completes, the stride on each axis
  is \<open>ceil(crop * stride_rate)\<close> and is not 0, the grid on each axis has
  \<open>ceil((padded - crop) / stride) + 1\<close> positions, the classifier has been run once for each
  of the \<open>grid_h * grid_w\<close> tiles, and the coverage buffer counts exactly these tiles; the
  default stride rate is 2/3. At an 8 x 8 image with a 4 x 4 crop and stride rate 1/2 the
  stride is 2, the grid is 3 per axis, 9 tiles are processed and every pixel is covered.
\<close>

theorem stride_and_grid_of_tiling:
  assumes "scale_process_cuda_loop T img stride_rate W = (Inr B, W')"
    and "shape (fst (pad_to_crop_sz img (crop_h T) (crop_w T) (mean T))) = (new_h, new_w)"
    and "stride_h = \<lceil>of_int (crop_h T) * stride_rate\<rceil>"
    and "stride_w = \<lceil>of_int (crop_w T) * stride_rate\<rceil>"
    and "grid_h = \<lceil>(of_int (new_h - crop_h T) :: rat) / of_int stride_h\<rceil> + 1"
    and "grid_w = \<lceil>(of_int (new_w - crop_w T) :: rat) / of_int stride_w\<rceil> + 1"
  shows "stride_h \<noteq> 0 \<and> stride_w \<noteq> 0
       \<and> forward_calls W' = forward_calls W + nat grid_h * nat grid_w
       \<and> count_crop B =
           count_tiles (crop_h T) (crop_w T) new_h new_w stride_h stride_w
             (tile_indices grid_h grid_w) (replicate (nat new_h) (replicate (nat new_w) 0))
       \<and> default_stride_rate = 2 / 3"
proof -
  obtain padded ph pw where pd: "pad_to_crop_sz img (crop_h T) (crop_w T) (mean T) = (padded, ph, pw)"
    by (cases "pad_to_crop_sz img (crop_h T) (crop_w T) (mean T)")
  have sp: "shape padded = (new_h, new_w)" using assms(2) pd by simp
  have sh: "stride_h = stride_of (crop_h T) stride_rate" and sw: "stride_w = stride_of (crop_w T) stride_rate"
    using assms(3,4) by (simp_all add: stride_of_def)
  from assms(1) pd sp obtain gh gw where
    gh: "grid_of new_h (crop_h T) stride_h = Inr gh"
    and gw: "grid_of new_w (crop_w T) stride_w = Inr gw"
    and lp: "tile_loop (tile_step T padded new_h new_w stride_h stride_w)
               (tile_indices gh gw)
               (\<lparr>prediction_crop = replicate (nat new_h) (replicate (nat new_w) (replicate (nat (pred_dim T)) 0)),
                 count_crop = replicate (nat new_h) (replicate (nat new_w) 0)\<rparr>, W) = (Inr B, W')"
    unfolding sh sw
    by (auto simp: scale_process_cuda_loop_def Let_def split: sum.splits if_splits)
  have g: "stride_h \<noteq> 0" "gh = grid_h" "stride_w \<noteq> 0" "gw = grid_w"
    using grid_of_Inr[OF gh] grid_of_Inr[OF gw] assms(5,6) by simp_all
  have fc: "forward_calls W' = forward_calls W + nat grid_h * nat grid_w"
    using tile_loop_forward_calls[OF lp] g by (simp add: length_tile_indices)
  have cnt: "count_crop B =
           count_tiles (crop_h T) (crop_w T) new_h new_w stride_h stride_w
             (tile_indices grid_h grid_w) (replicate (nat new_h) (replicate (nat new_w) 0))"
    using tile_loop_count[OF lp] g by simp
  show ?thesis using g fc cnt by (simp add: default_stride_rate_def)
qed

theorem stride_and_grid_of_tiling_witness:
  "scale_process_cuda_loop (stub_task 4 4 ''universal'') (replicate 8 (replicate 8 [1])) (1 / 2) world0
     = (Inr \<lparr>prediction_crop =
               [[[1], [1], [2], [2], [2], [2], [1], [1]],
                [[1], [1], [2], [2], [2], [2], [1], [1]],
                [[2], [2], [4], [4], [4], [4], [2], [2]],
                [[2], [2], [4], [4], [4], [4], [2], [2]],
                [[2], [2], [4], [4], [4], [4], [2], [2]],
                [[2], [2], [4], [4], [4], [4], [2], [2]],
                [[1], [1], [2], [2], [2], [2], [1], [1]],
                [[1], [1], [2], [2], [2], [2], [1], [1]]],
             count_crop =
               [[1, 1, 2, 2, 2, 2, 1, 1], [1, 1, 2, 2, 2, 2, 1, 1],
                [2, 2, 4, 4, 4, 4, 2, 2], [2, 2, 4, 4, 4, 4, 2, 2],
                [2, 2, 4, 4, 4, 4, 2, 2], [2, 2, 4, 4, 4, 4, 2, 2],
                [1, 1, 2, 2, 2, 2, 1, 1], [1, 1, 2, 2, 2, 2, 1, 1]]\<rparr>,
        \<lparr>forward_calls = 9, stdout = []\<rparr>)
   \<and> shape (fst (pad_to_crop_sz (replicate 8 (replicate 8 [1 :: rat])) 4 4 [0])) = (8, 8)
   \<and> (2 :: int) = \<lceil>of_int 4 * (1 / 2 :: rat)\<rceil>
   \<and> (3 :: int) = \<lceil>(of_int (8 - 4) :: rat) / of_int 2\<rceil> + 1
   \<and> forward_calls \<lparr>forward_calls = 9, stdout = []\<rparr> = forward_calls world0 + nat 3 * nat 3
   \<and> length (tile_indices 3 3) = 9
   \<and> count_tiles 4 4 8 8 2 2 (tile_indices 3 3) (replicate (nat 8) (replicate (nat 8) 0))
       = [[1, 1, 2, 2, 2, 2, 1, 1], [1, 1, 2, 2, 2, 2, 1, 1],
          [2, 2, 4, 4, 4, 4, 2, 2], [2, 2, 4, 4, 4, 4, 2, 2],
          [2, 2, 4, 4, 4, 4, 2, 2], [2, 2, 4, 4, 4, 4, 2, 2],
          [1, 1, 2, 2, 2, 2, 1, 1], [1, 1, 2, 2, 2, 2, 1, 1]]"
proof -
  let ?T = "stub_task 4 4 ''universal''"
  let ?img = "replicate 8 (replicate 8 [1 :: rat])"
  let ?M = "[[1, 1, 2, 2, 2, 2, 1, 1], [1, 1, 2, 2, 2, 2, 1, 1],
             [2, 2, 4, 4, 4, 4, 2, 2], [2, 2, 4, 4, 4, 4, 2, 2],
             [2, 2, 4, 4, 4, 4, 2, 2], [2, 2, 4, 4, 4, 4, 2, 2],
             [1, 1, 2, 2, 2, 2, 1, 1], [1, 1, 2, 2, 2, 2, 1, 1 :: int]]"
  let ?P = "[[[1], [1], [2], [2], [2], [2], [1], [1]],
             [[1], [1], [2], [2], [2], [2], [1], [1]],
             [[2], [2], [4], [4], [4], [4], [2], [2]],
             [[2], [2], [4], [4], [4], [4], [2], [2]],
             [[2], [2], [4], [4], [4], [4], [2], [2]],
             [[2], [2], [4], [4], [4], [4], [2], [2]],
             [[1], [1], [2], [2], [2], [2], [1], [1]],
             [[1], [1], [2], [2], [2], [2], [1], [1 :: rat]]]"
  let ?W = "\<lparr>forward_calls = 9, stdout = []\<rparr>"
  have run: "scale_process_cuda_loop ?T ?img (1 / 2) world0
      = (Inr \<lparr>prediction_crop = ?P, count_crop = ?M\<rparr>, ?W)"
    by code_simp
  have sh: "shape (fst (pad_to_crop_sz ?img (crop_h ?T) (crop_w ?T) (mean ?T))) = (8, 8)"
    by code_simp
  have s: "(2 :: int) = \<lceil>of_int (crop_h ?T) * (1 / 2 :: rat)\<rceil>" "(2 :: int) = \<lceil>of_int (crop_w ?T) * (1 / 2 :: rat)\<rceil>"
    by (simp_all add: stub_task_def)
  have g: "(3 :: int) = \<lceil>(of_int (8 - crop_h ?T) :: rat) / of_int 2\<rceil> + 1"
    "(3 :: int) = \<lceil>(of_int (8 - crop_w ?T) :: rat) / of_int 2\<rceil> + 1"
    by (simp_all add: stub_task_def)
  note th = stride_and_grid_of_tiling[OF run sh s g]
  from th have fc: "forward_calls ?W = forward_calls world0 + nat 3 * nat 3"
    by blast
  from th have "count_crop \<lparr>prediction_crop = ?P, count_crop = ?M\<rparr> =
      count_tiles (crop_h ?T) (crop_w ?T) 8 8 2 2 (tile_indices 3 3)
        (replicate (nat 8) (replicate (nat 8) 0))"
    by blast
  then have ct: "count_tiles 4 4 8 8 2 2 (tile_indices 3 3) (replicate (nat 8) (replicate (nat 8) 0)) = ?M"
    by (simp add: stub_task_def)
  have sh': "shape (fst (pad_to_crop_sz ?img 4 4 [0])) = (8, 8)"
    using sh by (simp add: stub_task_def)
  have s': "(2 :: int) = \<lceil>of_int 4 * (1 / 2 :: rat)\<rceil>" by simp
  have g': "(3 :: int) = \<lceil>(of_int (8 - 4) :: rat) / of_int 2\<rceil> + 1" by simp
  have n: "length (tile_indices 3 3) = 9" by code_simp
  show ?thesis
    by (intro conjI run sh' s' g' fc n ct)
qed

section \<open>Flip averaging in \<open>net_process\<close>\<close>

lemma hflip_hflip [simp]: "hflip (hflip t) = t"
  by (simp add: hflip_def comp_def)

lemma per_pixel_hflip: "per_pixel f (hflip t) = hflip (per_pixel f t)"
  by (simp add: per_pixel_def hflip_def rev_map)

lemma map_length_hflip [simp]: "map length (hflip t) = map length t"
  by (simp add: hflip_def)

lemma map_length_per_pixel [simp]: "map length (per_pixel f t) = map length t"
  by (simp add: per_pixel_def)

lemma same_size_hflip [simp]: "same_size a (hflip b) = same_size a b"
  by (simp add: same_size_def)

lemma map2_commute:
  assumes "\<And>x y. f x y = f y x"
  shows "map2 f xs ys = map2 f ys xs"
proof (induction xs arbitrary: ys)
  case Nil
  then show ?case by simp
next
  case (Cons x xs)
  then show ?case using assms by (cases ys) simp_all
qed

lemma rev_map2:
  assumes "length xs = length ys"
  shows "rev (map2 f xs ys) = map2 f (rev xs) (rev ys)"
  using assms by (simp add: rev_map zip_rev)

lemma avg_pixel_commute:
  "map2 (\<lambda>x y. (x + y) / 2) (u :: rat list) v = map2 (\<lambda>x y. (x + y) / 2) v u"
  by (rule map2_commute) (simp add: add.commute)

lemma avg_row_flip:
  assumes "length p = length q"
  shows "map2 (map2 (\<lambda>x y. (x + y) / 2)) q (rev p)
       = rev (map2 (map2 (\<lambda>x y. (x + y) / (2 :: rat))) p (rev q))"
proof -
  have "rev (map2 (map2 (\<lambda>x y. (x + y) / (2 :: rat))) p (rev q))
      = map2 (map2 (\<lambda>x y. (x + y) / 2)) (rev p) q"
    using assms by (simp add: rev_map2)
  also have "\<dots> = map2 (map2 (\<lambda>x y. (x + y) / 2)) q (rev p)"
    by (rule map2_commute) (rule avg_pixel_commute)
  finally show ?thesis by simp
qed

lemma tensor_avg_flip:
  assumes "map length p = map length q"
  shows "tensor_avg q (hflip p) = hflip (tensor_avg p (hflip q))"
  using assms
proof (induction p arbitrary: q)
  case Nil
  then show ?case by (simp add: tensor_avg_def hflip_def)
next
  case (Cons r p)
  then obtain r' q' where q: "q = r' # q'" by (cases q) auto
  with Cons.prems have len: "length r = length r'" and rest: "map length p = map length q'"
    by simp_all
  have "tensor_avg q' (hflip p) = hflip (tensor_avg p (hflip q'))" by (rule Cons.IH[OF rest])
  then show ?case
    using avg_row_flip[OF len] by (simp add: q tensor_avg_def hflip_def)
qed

text \<open>
  Claim C6, amended. For every crop and every deterministic classifier, \<open>net_process\<close> with
  flip enabled applied to the horizontal mirror of a crop returns the horizontal mirror of
  what it returns for the crop (and fails exactly when it fails for the crop); the two
  averaged outputs are mirror images of each other, not identical.
\<close>

theorem net_process_flip_mirrors_output:
  "net_process T (hflip img) True W
     = (map_sum id hflip (fst (net_process T img True W)), snd (net_process T img True W))"
proof -
  let ?inp = "per_pixel (normalize_img T) img"
  let ?a = "model T ?inp" and ?b = "model T (hflip ?inp)"
  show ?thesis
  proof (cases "same_size ?a ?inp \<and> same_size ?b ?inp")
    case False
    then show ?thesis
      by (auto simp: net_process_def Let_def per_pixel_hflip)
  next
    case True
    then have ab: "map length ?a = map length ?b" by (simp add: same_size_def)
    have u: "tensor_avg (per_pixel (softmax T) ?b) (hflip (per_pixel (softmax T) ?a))
        = hflip (tensor_avg (per_pixel (softmax T) ?a) (hflip (per_pixel (softmax T) ?b)))"
      by (rule tensor_avg_flip) (simp add: ab)
    have c: "tensor_avg (convert_pred_to_label_tax_and_softmax T ?b)
               (hflip (convert_pred_to_label_tax_and_softmax T ?a))
        = hflip (tensor_avg (convert_pred_to_label_tax_and_softmax T ?a)
               (hflip (convert_pred_to_label_tax_and_softmax T ?b)))"
      by (rule tensor_avg_flip) (simp add: ab convert_pred_to_label_tax_and_softmax_def)
    show ?thesis
      using True u c by (simp add: net_process_def Let_def per_pixel_hflip)
  qed
qed

text \<open>
  Claim C6 as stated fails. Take the 1 x 2 crop with a white pixel on the left and a black
  pixel on the right, and the stub classifier that scores a pixel by the sign of its
  normalised brightness. The classifier gives the scores (1000, 0) on the left and
  (0, 1000) on the right, the softmax turns them into (1, 0) and (0, 1), and so does the
  re-flipped output of the mirrored sample; the averaged output for the crop is
  (1, 0), (0, 1), and for the mirrored crop it is (0, 1), (1, 0).
\<close>

theorem net_process_flip_outputs_differ:
  "model flip_task (per_pixel (normalize_img flip_task) [[[255, 255, 255], [0, 0, 0]]])
     = [[[1000, 0], [0, 1000]]]
   \<and> per_pixel (softmax flip_task) [[[1000, 0], [0, 1000]]] = [[[1, 0], [0, 1]]]
   \<and> net_process flip_task [[[255, 255, 255], [0, 0, 0]]] True world0
     = (Inr [[[1, 0], [0, 1]]], \<lparr>forward_calls = 1, stdout = []\<rparr>)
   \<and> hflip [[[255, 255, 255], [0, 0, 0 :: rat]]] = [[[0, 0, 0], [255, 255, 255]]]
   \<and> net_process flip_task [[[0, 0, 0], [255, 255, 255]]] True world0
     = (Inr [[[0, 1], [1, 0]]], \<lparr>forward_calls = 1, stdout = []\<rparr>)"
  by code_simp

section \<open>Unrecognized output taxonomy\<close>

text \<open>
  Claim C2, amended. When the output taxonomy is neither \<open>universal\<close> nor \<open>test_dataset\<close>,
  \<open>net_process\<close> never returns an output and uses no default mode, but the taxonomy is
  checked only after the forward pass of the classifier on the crop, not before any
  inference begins: when the output of the classifier has the height and width of the
  crop, \<open>net_process\<close> then prints the message and quits.
\<close>

theorem unrecognized_taxonomy_never_returns:
  assumes "output_taxonomy T \<noteq> ''universal''" "output_taxonomy T \<noteq> ''test_dataset''"
  shows "isl (fst (net_process T img flip W))
       \<and> forward_calls (snd (net_process T img flip W)) = forward_calls W + 1
       \<and> (list_all (\<lambda>out. same_size out (per_pixel (normalize_img T) img))
             (map (model T) (if flip then [per_pixel (normalize_img T) img,
                                           hflip (per_pixel (normalize_img T) img)]
                             else [per_pixel (normalize_img T) img]))
           \<longrightarrow> net_process T img flip W
               = (Inl SystemExit,
                  W\<lparr>forward_calls := forward_calls W + 1,
                    stdout := stdout W @ [''Unrecognized output taxonomy. Quitting....'']\<rparr>))"
  using assms by (simp add: net_process_def Let_def)

theorem unrecognized_taxonomy_never_returns_witness:
  "output_taxonomy (stub_task 1 1 ''dataset'') \<noteq> ''universal''
   \<and> output_taxonomy (stub_task 1 1 ''dataset'') \<noteq> ''test_dataset''
   \<and> isl (fst (net_process (stub_task 1 1 ''dataset'') [[[1]]] True world0))
   \<and> forward_calls (snd (net_process (stub_task 1 1 ''dataset'') [[[1]]] True world0))
       = forward_calls world0 + 1
   \<and> net_process (stub_task 1 1 ''dataset'') [[[1]]] True world0
       = (Inl SystemExit,
          world0\<lparr>forward_calls := forward_calls world0 + 1,
                 stdout := stdout world0 @ [''Unrecognized output taxonomy. Quitting....'']\<rparr>)"
proof -
  let ?T = "stub_task 1 1 ''dataset''"
  have h: "output_taxonomy ?T \<noteq> ''universal''" "output_taxonomy ?T \<noteq> ''test_dataset''"
    by (simp_all add: stub_task_def)
  have s: "list_all (\<lambda>out. same_size out (per_pixel (normalize_img ?T) [[[1]]]))
             (map (model ?T) (if True then [per_pixel (normalize_img ?T) [[[1]]],
                                           hflip (per_pixel (normalize_img ?T) [[[1]]])]
                             else [per_pixel (normalize_img ?T) [[[1]]]]))"
    by code_simp
  show ?thesis
    using unrecognized_taxonomy_never_returns[OF h, of "[[[1]]]" True world0] s h by blast
qed

text \<open>
  Claim C2 as stated, that the failure comes before any inference begins, fails: on a
  1 x 1 image with an unrecognized taxonomy the run quits with one forward pass of the
  classifier already made.
\<close>

theorem unrecognized_taxonomy_checked_after_forward_pass:
  "scale_process_cuda_loop (stub_task 1 1 ''dataset'') [[[1]]] default_stride_rate world0
     = (Inl SystemExit,
        \<lparr>forward_calls = 1, stdout = [''Unrecognized output taxonomy. Quitting....'']\<rparr>)"
  by code_simp

section \<open>Ground-truth labels outside the universal taxonomy\<close>

text \<open>
  Claim C10. When the configured taxonomy is not \<open>universal\<close>,
  \<open>convert_label_to_pred_taxonomy\<close> returns the target image unchanged.
\<close>

theorem convert_label_identity_outside_universal:
  assumes "taxonomy C \<noteq> ''universal''"
  shows "convert_label_to_pred_taxonomy C target_img = Inr target_img"
  using assms by (simp add: convert_label_to_pred_taxonomy_def)

theorem convert_label_identity_outside_universal_witness:
  "taxonomy (stub_calculator ''test_dataset'') \<noteq> ''universal''
   \<and> convert_label_to_pred_taxonomy (stub_calculator ''test_dataset'') [[0, 255], [3, 1 :: int]]
       = Inr [[0, 255], [3, 1]]"
proof -
  have h: "taxonomy (stub_calculator ''test_dataset'') \<noteq> ''universal''"
    by (simp add: stub_calculator_def)
  show ?thesis
    using convert_label_identity_outside_universal[OF h, of "[[0, 255], [3, 1 :: int]]"] h by simp
qed

section \<open>Unique keys\<close>






section \<open>Fusion of the scale maps\<close>

lemma argmax_from_spec:
  assumes "best < length pre" "m = pre ! best" "\<forall>j<length pre. pre ! j \<le> m"
    "\<forall>j<best. pre ! j < m" "i = length pre"
  shows "argmax_from xs i best m < length (pre @ xs)
       \<and> (\<forall>j<length (pre @ xs). (pre @ xs) ! j \<le> (pre @ xs) ! argmax_from xs i best m)
       \<and> (\<forall>j<argmax_from xs i best m. (pre @ xs) ! j < (pre @ xs) ! argmax_from xs i best m)"
  using assms
proof (induction xs arbitrary: pre best m i)
  case Nil
  then show ?case by simp
next
  case (Cons x xs)
  show ?case
  proof (cases "m < x")
    case True
    have "argmax_from xs (Suc i) i x < length ((pre @ [x]) @ xs)
       \<and> (\<forall>j<length ((pre @ [x]) @ xs). ((pre @ [x]) @ xs) ! j \<le> ((pre @ [x]) @ xs) ! argmax_from xs (Suc i) i x)
       \<and> (\<forall>j<argmax_from xs (Suc i) i x. ((pre @ [x]) @ xs) ! j < ((pre @ [x]) @ xs) ! argmax_from xs (Suc i) i x)"
    proof (rule Cons.IH)
      show "i < length (pre @ [x])" using Cons.prems by simp
      show "x = (pre @ [x]) ! i" using Cons.prems by simp
      show "\<forall>j<length (pre @ [x]). (pre @ [x]) ! j \<le> x"
      proof (intro allI impI)
        fix j assume j: "j < length (pre @ [x])"
        show "(pre @ [x]) ! j \<le> x"
        proof (cases "j < length pre")
          case True
          then have "pre ! j \<le> m" using Cons.prems(3) by simp
          then show ?thesis using \<open>m < x\<close> True by (simp add: nth_append)
        next
          case False
          then have "j = length pre" using j by simp
          then show ?thesis by simp
        qed
      qed
      show "\<forall>j<i. (pre @ [x]) ! j < x"
      proof (intro allI impI)
        fix j assume j: "j < i"
        then have "pre ! j \<le> m" using Cons.prems(3,5) by simp
        then show "(pre @ [x]) ! j < x" using \<open>m < x\<close> j Cons.prems(5) by (simp add: nth_append)
      qed
      show "Suc i = length (pre @ [x])" using Cons.prems by simp
    qed
    then show ?thesis using True by simp
  next
    case False
    have "argmax_from xs (Suc i) best m < length ((pre @ [x]) @ xs)
       \<and> (\<forall>j<length ((pre @ [x]) @ xs). ((pre @ [x]) @ xs) ! j \<le> ((pre @ [x]) @ xs) ! argmax_from xs (Suc i) best m)
       \<and> (\<forall>j<argmax_from xs (Suc i) best m. ((pre @ [x]) @ xs) ! j < ((pre @ [x]) @ xs) ! argmax_from xs (Suc i) best m)"
    proof (rule Cons.IH)
      show "best < length (pre @ [x])" using Cons.prems by simp
      show "m = (pre @ [x]) ! best" using Cons.prems by (simp add: nth_append)
      show "\<forall>j<length (pre @ [x]). (pre @ [x]) ! j \<le> m"
      proof (intro allI impI)
        fix j assume j: "j < length (pre @ [x])"
        show "(pre @ [x]) ! j \<le> m"
        proof (cases "j < length pre")
          case True
          then show ?thesis using Cons.prems(3) by (simp add: nth_append)
        next
          case False
          then have "j = length pre" using j by simp
          then show ?thesis using \<open>\<not> m < x\<close> by simp
        qed
      qed
      show "\<forall>j<best. (pre @ [x]) ! j < m"
      proof (intro allI impI)
        fix j assume j: "j < best"
        then have "pre ! j < m" using Cons.prems(4) by simp
        then show "(pre @ [x]) ! j < m" using j Cons.prems(1) by (simp add: nth_append)
      qed
      show "Suc i = length (pre @ [x])" using Cons.prems by simp
    qed
    then show ?thesis using False by simp
  qed
qed

lemma argmax_first_maximum:
  assumes "xs \<noteq> []"
  shows "argmax xs < length xs
       \<and> (\<forall>j<length xs. xs ! j \<le> xs ! argmax xs)
       \<and> (\<forall>j<argmax xs. xs ! j < xs ! argmax xs)"
proof -
  obtain x rest where xs: "xs = x # rest" using assms by (cases xs) auto
  have "argmax_from rest 1 0 x < length ([x] @ rest)
       \<and> (\<forall>j<length ([x] @ rest). ([x] @ rest) ! j \<le> ([x] @ rest) ! argmax_from rest 1 0 x)
       \<and> (\<forall>j<argmax_from rest 1 0 x. ([x] @ rest) ! j < ([x] @ rest) ! argmax_from rest 1 0 x)"
    by (rule argmax_from_spec) simp_all
  then show ?thesis by (simp add: xs argmax_def)
qed

lemma shaped_nth:
  assumes "shaped h w c t" "r < h" "x < w"
  shows "length t = h" "length (t ! r) = w" "length (t ! r ! x) = c"
  using assms by (auto simp: shaped_def list_all_length)

lemma shapedI:
  assumes "length t = h" "\<And>r. r < h \<Longrightarrow> length (t ! r) = w"
    "\<And>r x. r < h \<Longrightarrow> x < w \<Longrightarrow> length (t ! r ! x) = c"
  shows "shaped h w c t"
  using assms by (simp add: shaped_def list_all_length)

lemma shaped_zeros: "shaped h w c (replicate h (replicate w (replicate c 0)))"
  by (rule shapedI) simp_all

lemma tensor_add_nth:
  assumes a: "shaped h w c a" and b: "shaped h w c b" and r: "r < h" and x: "x < w"
  shows "tensor_add a b ! r ! x = map2 (+) (a ! r ! x) (b ! r ! x)"
  using shaped_nth[OF a r x] shaped_nth[OF b r x] r x
  by (simp add: tensor_add_def)

lemma shaped_tensor_add:
  assumes a: "shaped h w c a" and b: "shaped h w c b"
  shows "shaped h w c (tensor_add a b)"
proof (rule shapedI)
  show "length (tensor_add a b) = h"
    using a b by (simp add: tensor_add_def shaped_def)
  show "length (tensor_add a b ! r) = w" if "r < h" for r
  proof -
    have "length (a ! r) = w" "length (b ! r) = w" "length a = h" "length b = h"
      using a b that by (auto simp: shaped_def list_all_length)
    then show ?thesis using that by (simp add: tensor_add_def)
  qed
  show "length (tensor_add a b ! r ! x) = c" if "r < h" "x < w" for r x
    using tensor_add_nth[OF a b that] shaped_nth[OF a that] shaped_nth[OF b that] by simp
qed

lemma foldl_tensor_add:
  assumes "shaped h w c acc" "list_all (shaped h w c) ms"
  shows "shaped h w c (foldl tensor_add acc ms)
       \<and> (\<forall>r<h. \<forall>x<w. \<forall>k<c. foldl tensor_add acc ms ! r ! x ! k
              = acc ! r ! x ! k + (\<Sum>m\<leftarrow>ms. m ! r ! x ! k))"
  using assms
proof (induction ms arbitrary: acc)
  case Nil
  then show ?case by simp
next
  case (Cons m ms)
  then have m: "shaped h w c m" and ms: "list_all (shaped h w c) ms" by simp_all
  have sa: "shaped h w c (tensor_add acc m)" by (rule shaped_tensor_add[OF Cons.prems(1) m])
  note ih = Cons.IH[OF sa ms]
  have "tensor_add acc m ! r ! x ! k = acc ! r ! x ! k + m ! r ! x ! k"
    if "r < h" "x < w" "k < c" for r x k
    using tensor_add_nth[OF Cons.prems(1) m that(1,2)]
      shaped_nth[OF Cons.prems(1) that(1,2)] shaped_nth[OF m that(1,2)] that(3)
    by simp
  then show ?case using ih by (simp add: add.assoc)
qed

text \<open>
  Claim C5, amended. For every non-empty sequence of \<open>h\<close> x \<open>w\<close> x \<open>pred_dim\<close> score maps
  with at least one class, \<open>execute_on_img\<close> returns an \<open>h\<close> x \<open>w\<close> label map whose entry at
  each pixel is the index of the first maximum of the elementwise sum of the maps
  divided by their number (every earlier class has a strictly smaller mean), cast to an
  unsigned 8-bit integer; the cast keeps the index when there are at most 256 classes.
\<close>

theorem fusion_mean_argmax_uint8:
  assumes "scale_maps \<noteq> []" "0 < pred_dim T"
    and "list_all (shaped h w (nat (pred_dim T))) scale_maps"
    and "r < h" "x < w"
    and "scores = map (\<lambda>k. (\<Sum>m\<leftarrow>scale_maps. m ! r ! x ! k) / of_nat (length scale_maps))
                    [0..<nat (pred_dim T)]"
  shows "\<exists>labels. execute_on_img T h w scale_maps = Inr labels
       \<and> length labels = h \<and> length (labels ! r) = w
       \<and> labels ! r ! x = of_nat (argmax scores)
       \<and> argmax scores < nat (pred_dim T)
       \<and> (\<forall>j<nat (pred_dim T). scores ! j \<le> scores ! argmax scores)
       \<and> (\<forall>j<argmax scores. scores ! j < scores ! argmax scores)
       \<and> (pred_dim T \<le> 256 \<longrightarrow> unat (labels ! r ! x) = argmax scores)"
proof -
  let ?c = "nat (pred_dim T)"
  let ?n = "length scale_maps"
  let ?Z = "replicate h (replicate w (replicate ?c (0 :: rat)))"
  let ?P = "foldl tensor_add ?Z scale_maps"
  let ?D = "map (map (map (\<lambda>v. v / of_nat ?n))) ?P"
  let ?L = "map (map (\<lambda>p. of_nat (argmax p))) ?D :: 8 word list list"
  have ex: "execute_on_img T h w scale_maps = Inr ?L"
    using assms(2) by (simp add: execute_on_img_def Let_def)
  have fp: "shaped h w ?c ?P"
    and sums: "\<forall>r<h. \<forall>x<w. \<forall>k<?c. ?P ! r ! x ! k = ?Z ! r ! x ! k + (\<Sum>m\<leftarrow>scale_maps. m ! r ! x ! k)"
    using foldl_tensor_add[OF shaped_zeros assms(3)] by simp_all
  have lens: "length ?P = h" "length (?P ! r) = w" "length (?P ! r ! x) = ?c"
    using shaped_nth[OF fp assms(4,5)] by simp_all
  have sc: "?D ! r ! x = scores"
  proof (rule nth_equalityI)
    show "length (?D ! r ! x) = length scores" using lens assms(4,5,6) by simp
    fix k assume "k < length (?D ! r ! x)"
    then have k: "k < ?c" using lens assms(4,5) by simp
    have "?P ! r ! x ! k = (\<Sum>m\<leftarrow>scale_maps. m ! r ! x ! k)"
      using sums assms(4,5) k by simp
    then show "?D ! r ! x ! k = scores ! k" using lens assms(4,5,6) k by simp
  qed
  have lab: "?L ! r ! x = of_nat (argmax scores)"
    using lens assms(4,5) sc by simp
  have ne: "scores \<noteq> []" using assms(2,6) by simp
  have ls: "length scores = ?c" using assms(6) by simp
  note am = argmax_first_maximum[OF ne, unfolded ls]
  have u: "unat (?L ! r ! x) = argmax scores" if "pred_dim T \<le> 256"
  proof -
    have "argmax scores < 256" using am that by linarith
    then show ?thesis unfolding lab by (simp add: unat_of_nat)
  qed
  show ?thesis
    using ex lens assms(4,5) lab am u by (intro exI[of _ ?L]) simp
qed

theorem fusion_mean_argmax_uint8_witness:
  "[[[[0, 3, 2], [0, 0, 0]]], [[[1, 1, 2], [1, 1, 0]]]] \<noteq> ([] :: tensor list)
   \<and> 0 < pred_dim ((stub_task 1 1 ''universal'')\<lparr>pred_dim := 3\<rparr>)
   \<and> list_all (shaped 1 2 3) [[[[0, 3, 2], [0, 0, 0]]], [[[1, 1, 2], [1, 1, 0]]]]
   \<and> execute_on_img ((stub_task 1 1 ''universal'')\<lparr>pred_dim := 3\<rparr>) 1 2
        [[[[0, 3, 2], [0, 0, 0]]], [[[1, 1, 2], [1, 1, 0]]]] = Inr [[1, 0]]
   \<and> argmax [1 / 2, 2, 2] = 1
   \<and> (\<exists>labels. execute_on_img ((stub_task 1 1 ''universal'')\<lparr>pred_dim := 3\<rparr>) 1 2
        [[[[0, 3, 2], [0, 0, 0]]], [[[1, 1, 2], [1, 1, 0]]]] = Inr labels
        \<and> unat (labels ! 0 ! 0) = argmax [1 / 2, 2, 2])"
proof -
  let ?T = "(stub_task 1 1 ''universal'')\<lparr>pred_dim := 3\<rparr>"
  let ?ms = "[[[[0, 3, 2], [0, 0, 0]]], [[[1, 1, 2], [1, 1, 0]]]] :: tensor list"
  have h1: "?ms \<noteq> []" by simp
  have h2: "0 < pred_dim ?T" by (simp add: stub_task_def)
  have h3: "list_all (shaped 1 2 (nat (pred_dim ?T))) ?ms" by code_simp
  have h3': "list_all (shaped 1 2 3) ?ms" by code_simp
  have h6: "[1 / 2, 2, 2] = map (\<lambda>k. (\<Sum>m\<leftarrow>?ms. m ! 0 ! 0 ! k) / of_nat (length ?ms)) [0..<nat (pred_dim ?T)]"
    by code_simp
  have le: "pred_dim ?T \<le> 256" by (simp add: stub_task_def)
  have ev: "execute_on_img ?T 1 2 ?ms = Inr [[1, 0]]" by code_simp
  have am: "argmax [1 / 2, 2, 2] = 1" by code_simp
  have "\<exists>labels. execute_on_img ?T 1 2 ?ms = Inr labels \<and> unat (labels ! 0 ! 0) = argmax [1 / 2, 2, 2]"
    using fusion_mean_argmax_uint8[OF h1 h2 h3 _ _ h6] le by auto
  then show ?thesis using h1 h2 h3' ev am by blast
qed

text \<open>
  Claim C5 as stated, that the integer type is sized to the class count, fails: with 257
  classes and the maximum at class 256, the label stored is 0.
\<close>

theorem fusion_uint8_wraps_beyond_256_classes:
  "execute_on_img ((stub_task 1 1 ''universal'')\<lparr>pred_dim := 257\<rparr>) 1 1
     [[[replicate 256 0 @ [1]]]] = Inr [[0]]
   \<and> argmax (map (\<lambda>v. v / 1) (replicate 256 0 @ [1])) = 256"
  by code_simp

section \<open>Exclusion policy of the two reports\<close>





end
